theory Spec2Isabelle
  imports Complex_Main
begin

section \<open>The composite container of \<open>pyvista/core/composite.py\<close>\<close>

text \<open>
  Class \<open>MultiBlock\<close> wraps \<open>vtkMultiBlockDataSet\<close>: an ordered vector of children, each
  child holding a data object (or nothing) and a metadata entry whose \<open>NAME\<close> key is the
  block name (or unset). On top of it the class keeps the dictionary \<open>_refs\<close>, keyed by
  the memory address of every object it stored.

  The model is a value model. An object is identified by its \<open>memory_address\<close>; Python's
  \<open>is\<close> is equality of addresses. Nested containers are values inside their parent, so
  the containment graph is a tree: a container that reaches itself through its own
  descendants is not represented. Floating point coordinates are reals (minimum and
  maximum do not round); NaN is not represented.
\<close>

subsection \<open>Data model\<close>

datatype error = IndexError | KeyError | TypeError | ValueError

datatype FieldAssociation = POINT | CELL | NONE | ROW

text \<open>The \<open>preference\<close> argument is typed \<open>PointLiteral | CellLiteral\<close>.\<close>

datatype preference = point | cell

datatype dtype = uint8 | int32 | int64 | float32 | float64 | complex64 | complex128

text \<open>Of a numpy array the class reads \<open>ndim\<close> and \<open>dtype\<close> only.\<close>

record ndarray =
  ndim :: nat
  dtype :: dtype

record BoundsTuple =
  x_min :: real
  x_max :: real
  y_min :: real
  y_max :: real
  z_min :: real
  z_max :: real

text \<open>
  A leaf dataset (class \<open>DataSet\<close>, defined outside this file) as far as \<open>MultiBlock\<close>
  looks at it: its address, its number of points, its bounds, and its point and cell
  arrays by name. A dataset object defines no length and no truth value, so \<open>if block\<close>
  holds for every dataset, also for one without points.
\<close>

record DataSet =
  ds_memory_address :: nat
  ds_n_points :: nat
  ds_bounds :: BoundsTuple
  point_data :: "(string \<times> ndarray) list"
  cell_data :: "(string \<times> ndarray) list"

text \<open>
  \<open>_TypeMultiBlockLeaf = Union['MultiBlock', DataSet, None]\<close> is \<open>block option\<close>. A child of
  the container is the pair of its data object and its name.
\<close>

datatype block = Leaf DataSet | Multi MultiBlock
  and MultiBlock = MultiBlock (memory_address: nat)
      (children: "(block option \<times> string option) list") (refs: "nat list")

type_synonym child = "block option \<times> string option"

text \<open>
  A mutating method returns the container it leaves behind; when it raises, the result
  is the exception together with the container as it is at that moment.
\<close>

type_synonym result = "(error \<times> MultiBlock) + MultiBlock"

subsection \<open>The VTK container underneath\<close>

definition n_blocks :: "MultiBlock \<Rightarrow> nat" where
  "n_blocks c = length (children c)"

text \<open>\<open>SetNumberOfBlocks\<close> resizes the vector; new children are empty and unnamed.\<close>

definition set_n_blocks :: "MultiBlock \<Rightarrow> nat \<Rightarrow> MultiBlock" where
  "set_n_blocks c n =
     MultiBlock (memory_address c)
       (take n (children c) @ replicate (n - length (children c)) (None, None)) (refs c)"

definition GetBlock :: "MultiBlock \<Rightarrow> nat \<Rightarrow> block option" where
  "GetBlock c i = (if i < n_blocks c then fst (children c ! i) else None)"

text \<open>\<open>SetBlock\<close> grows the vector when the position is past its end.\<close>

definition SetBlock :: "MultiBlock \<Rightarrow> nat \<Rightarrow> block option \<Rightarrow> MultiBlock" where
  "SetBlock c i d =
     (let c' = (if i < n_blocks c then c else set_n_blocks c (Suc i))
      in MultiBlock (memory_address c')
           ((children c')[i := (d, snd (children c' ! i))]) (refs c'))"

text \<open>\<open>RemoveBlock\<close> erases the child; past the end it only reports an error to the log.\<close>

definition RemoveBlock :: "MultiBlock \<Rightarrow> nat \<Rightarrow> MultiBlock" where
  "RemoveBlock c i =
     (if n_blocks c \<le> i then c
      else MultiBlock (memory_address c)
             (take i (children c) @ drop (Suc i) (children c)) (refs c))"

subsection \<open>Positions and names\<close>

text \<open>\<open>range(n)[i]\<close> for an integer \<open>i\<close>.\<close>

definition range_index :: "nat \<Rightarrow> int \<Rightarrow> error + nat" where
  "range_index n i =
     (if i < - int n \<or> int n \<le> i then Inl IndexError
      else Inr (nat (if i < 0 then int n + i else i)))"

definition get_block_name :: "MultiBlock \<Rightarrow> int \<Rightarrow> error + string option" where
  "get_block_name c index =
     (case range_index (n_blocks c) index of
        Inl e \<Rightarrow> Inl e
      | Inr i \<Rightarrow> Inr (snd (children c ! i)))"

definition set_block_name :: "MultiBlock \<Rightarrow> int \<Rightarrow> string option \<Rightarrow> result" where
  "set_block_name c index name =
     (case name of
        None \<Rightarrow> Inr c
      | Some s \<Rightarrow>
          (case range_index (n_blocks c) index of
             Inl e \<Rightarrow> Inl (e, c)
           | Inr i \<Rightarrow>
               Inr (MultiBlock (memory_address c)
                      ((children c)[i := (fst (children c ! i), Some s)]) (refs c))))"

definition keys :: "MultiBlock \<Rightarrow> string option list" where
  "keys c = map snd (children c)"

text \<open>The loop of \<open>get_index_by_name\<close>, from position \<open>i\<close> on.\<close>

fun index_by_name_from :: "child list \<Rightarrow> nat \<Rightarrow> string \<Rightarrow> error + nat" where
  "index_by_name_from [] i name = Inl KeyError"
| "index_by_name_from (ch # chs) i name =
     (if snd ch = Some name then Inr i else index_by_name_from chs (Suc i) name)"

definition get_index_by_name :: "MultiBlock \<Rightarrow> string \<Rightarrow> error + nat" where
  "get_index_by_name c name = index_by_name_from (children c) 0 name"

text \<open>\<open>__getitem__\<close> for an integer index.\<close>

definition getitem :: "MultiBlock \<Rightarrow> int \<Rightarrow> error + block option" where
  "getitem c index =
     (if index < - int (n_blocks c) \<or> int (n_blocks c) \<le> index then Inl IndexError
      else Inr (GetBlock c (nat (if index < 0 then int (n_blocks c) + index else index))))"

subsection \<open>The retained references\<close>

fun address_of :: "block \<Rightarrow> nat" where
  "address_of (Leaf d) = ds_memory_address d"
| "address_of (Multi m) = memory_address m"

text \<open>
  \<open>_refs\<close> maps an address to the object with that address, which a slot holds as
  well; the model keeps the keys, in the dictionary's order.
\<close>

definition refs_pop :: "nat list \<Rightarrow> nat \<Rightarrow> nat list" where
  "refs_pop r a = removeAll a r"

definition refs_set :: "nat list \<Rightarrow> nat \<Rightarrow> nat list" where
  "refs_set r a = (if a \<in> set r then r else r @ [a])"

definition remove_ref :: "MultiBlock \<Rightarrow> int \<Rightarrow> result" where
  "remove_ref c index =
     (case getitem c index of
        Inl e \<Rightarrow> Inl (e, c)
      | Inr None \<Rightarrow> Inr c
      | Inr (Some b) \<Rightarrow>
          Inr (MultiBlock (memory_address c) (children c) (refs_pop (refs c) (address_of b))))"

subsection \<open>Default names\<close>

text \<open>The format \<open>f'Block-{i:02}'\<close> of a position: decimal, at least two digits.\<close>

fun decimal :: "nat \<Rightarrow> string" where
  "decimal n = (if n < 10 then [''0123456789'' ! n]
                else decimal (n div 10) @ [''0123456789'' ! (n mod 10)])"

definition default_name :: "nat \<Rightarrow> string" where
  "default_name i = ''Block-'' @ (if i < 10 then ''0'' else '''') @ decimal i"

declare decimal.simps [simp del]

subsection \<open>Single-slot assignment, append, replace\<close>

text \<open>
  The last part of \<open>__setitem__\<close> (from \<open>data = wrap(data)\<close> on), where \<open>i\<close> and
  \<open>name\<close> are single values. \<open>wrap\<close> returns a dataset, a container or \<open>None\<close> as it is.
\<close>

definition setitem_slot :: "MultiBlock \<Rightarrow> int \<Rightarrow> block option \<Rightarrow> string option \<Rightarrow> result" where
  "setitem_slot c index data name =
     (case range_index (n_blocks c) index of
        Inl e \<Rightarrow> Inl (e, c)
      | Inr i \<Rightarrow>
          (case (if GetBlock c i \<noteq> None then remove_ref c (int i) else Inr c) of
             Inl ec \<Rightarrow> Inl ec
           | Inr c1 \<Rightarrow>
               (let c2 = SetBlock c1 i data;
                    c3 = (case data of
                            None \<Rightarrow> c2
                          | Some b \<Rightarrow>
                              MultiBlock (memory_address c2) (children c2)
                                (refs_set (refs c2) (address_of b)))
                in set_block_name c3 (int i)
                     (Some (case name of None \<Rightarrow> default_name i | Some s \<Rightarrow> s)))))"

text \<open>\<open>dataset is self\<close>.\<close>

definition is_self :: "MultiBlock \<Rightarrow> block option \<Rightarrow> bool" where
  "is_self c dataset =
     (case dataset of
        Some (Multi m) \<Rightarrow> memory_address m = memory_address c
      | _ \<Rightarrow> False)"

text \<open>
  \<open>append\<close>. The \<open>TypeError\<close> it raises is for a numpy array, which is not a value of
  \<open>_TypeMultiBlockLeaf\<close>.
\<close>

definition append :: "MultiBlock \<Rightarrow> block option \<Rightarrow> string option \<Rightarrow> result" where
  "append c dataset name =
     (if is_self c dataset then Inl (ValueError, c)
      else
        (let index = n_blocks c;
             c1 = set_n_blocks c (n_blocks c + 1)
         in case setitem_slot c1 (int index) dataset None of
              Inl ec \<Rightarrow> Inl ec
            | Inr c2 \<Rightarrow> set_block_name c2 (int index) name))"

datatype key = IntKey int | StrKey string

text \<open>\<open>__setitem__\<close> for an integer or a name.\<close>

fun setitem :: "MultiBlock \<Rightarrow> key \<Rightarrow> block option \<Rightarrow> result" where
  "setitem c (StrKey index) data =
     (case get_index_by_name c index of
        Inl e \<Rightarrow> (if e = KeyError then append c data (Some index) else Inl (e, c))
      | Inr i \<Rightarrow> setitem_slot c (int i) data (Some index))"
| "setitem c (IntKey index) data = setitem_slot c index data None"

definition replace :: "MultiBlock \<Rightarrow> int \<Rightarrow> block option \<Rightarrow> result" where
  "replace c index dataset =
     (case get_block_name c index of
        Inl e \<Rightarrow> Inl (e, c)
      | Inr name \<Rightarrow>
          (case setitem c (IntKey index) dataset of
             Inl ec \<Rightarrow> Inl ec
           | Inr c1 \<Rightarrow> set_block_name c1 index name))"

subsection \<open>Insertion and deletion\<close>

text \<open>
  One round of the loop of \<open>insert\<close>:
  \<open>self[i + 1] = self[i]; self.set_block_name(i + 1, self.get_block_name(i))\<close>.
\<close>

definition insert_step :: "MultiBlock \<Rightarrow> nat \<Rightarrow> result" where
  "insert_step c i =
     (case getitem c (int i) of
        Inl e \<Rightarrow> Inl (e, c)
      | Inr d \<Rightarrow>
          (case setitem c (IntKey (int i + 1)) d of
             Inl ec \<Rightarrow> Inl ec
           | Inr c1 \<Rightarrow>
               (case get_block_name c1 (int i) of
                  Inl e \<Rightarrow> Inl (e, c1)
                | Inr name \<Rightarrow> set_block_name c1 (int i + 1) name)))"

fun insert_loop :: "MultiBlock \<Rightarrow> nat list \<Rightarrow> result" where
  "insert_loop c [] = Inr c"
| "insert_loop c (i # is) =
     (case insert_step c i of
        Inl ec \<Rightarrow> Inl ec
      | Inr c1 \<Rightarrow> insert_loop c1 is)"

definition insert :: "MultiBlock \<Rightarrow> int \<Rightarrow> block option \<Rightarrow> string option \<Rightarrow> result" where
  "insert c index dataset name =
     (case range_index (n_blocks c) index of
        Inl e \<Rightarrow> Inl (e, c)
      | Inr i \<Rightarrow>
          (let c1 = set_n_blocks c (n_blocks c + 1)
           in case insert_loop c1 (rev [i ..< n_blocks c1 - 1]) of
                Inl ec \<Rightarrow> Inl ec
              | Inr c2 \<Rightarrow>
                  (case setitem c2 (IntKey (int i)) dataset of
                     Inl ec \<Rightarrow> Inl ec
                   | Inr c3 \<Rightarrow> set_block_name c3 (int i) name)))"

text \<open>
  \<open>__delitem__\<close> for an integer that is not negative, which is what its callers below
  pass.
\<close>

definition delitem :: "MultiBlock \<Rightarrow> nat \<Rightarrow> result" where
  "delitem c index =
     (case remove_ref c (int index) of
        Inl ec \<Rightarrow> Inl ec
      | Inr c1 \<Rightarrow> Inr (RemoveBlock c1 index))"

subsection \<open>Slice assignment\<close>

datatype slice = Slice (start: "int option") (stop: "int option") (step: "int option")

text \<open>Python's \<open>range(start, stop, step)\<close> for a step that is not zero, as a list.\<close>

definition py_range :: "int \<Rightarrow> int \<Rightarrow> int \<Rightarrow> int list" where
  "py_range a b s =
     (let len = (if 0 < s \<and> a < b then nat ((b - a - 1) div s + 1)
                 else if s < 0 \<and> b < a then nat ((a - b - 1) div (- s) + 1)
                 else 0)
      in map (\<lambda>k. a + int k * s) [0 ..< len])"

text \<open>
  \<open>range(n)[index]\<close> for a slice: the positions that \<open>slice.indices(n)\<close> selects. All of
  them lie in \<open>range(n)\<close>.
\<close>

definition range_slice :: "nat \<Rightarrow> slice \<Rightarrow> error + nat list" where
  "range_slice n sl =
     (let s = (case step sl of None \<Rightarrow> 1 | Some k \<Rightarrow> k);
          lower = (if s < 0 then - 1 else 0);
          upper = (if s < 0 then int n - 1 else int n);
          a = (case start sl of
                 None \<Rightarrow> (if s < 0 then upper else lower)
               | Some x \<Rightarrow> (if x < 0 then max (x + int n) lower else min x upper));
          b = (case stop sl of
                 None \<Rightarrow> (if s < 0 then lower else upper)
               | Some x \<Rightarrow> (if x < 0 then max (x + int n) lower else min x upper))
      in if s = 0 then Inl ValueError else Inr (map nat (py_range a b s)))"

text \<open>\<open>itertools.zip_longest\<close> with the fill value \<open>None\<close>.\<close>

fun zip_longest :: "'a list \<Rightarrow> 'b list \<Rightarrow> ('a option \<times> 'b option) list" where
  "zip_longest [] [] = []"
| "zip_longest (x # xs) [] = (Some x, None) # zip_longest xs []"
| "zip_longest [] (y # ys) = (None, Some y) # zip_longest [] ys"
| "zip_longest (x # xs) (y # ys) = (Some x, Some y) # zip_longest xs ys"

text \<open>
  The loop of the slice branch of \<open>__setitem__\<close>; \<open>i\<close> is the counter of \<open>enumerate\<close>.
  A payload that is \<open>None\<close> and the fill value are the same \<open>d\<close>.
\<close>

fun setitem_slice_loop ::
  "MultiBlock \<Rightarrow> nat list \<Rightarrow> nat \<Rightarrow> (nat option \<times> block option option) list \<Rightarrow> result" where
  "setitem_slice_loop c index_iter i [] = Inr c"
| "setitem_slice_loop c index_iter i ((idx, dd) # rest) =
     (let d = (case dd of None \<Rightarrow> None | Some d' \<Rightarrow> d');
          r = (case idx of
                 None \<Rightarrow>
                   (if index_iter = [] then Inl (IndexError, c)
                    else insert c (int (last index_iter) + 1 + (int i - int (length index_iter)))
                           d None)
               | Some ix \<Rightarrow>
                   (if d = None then
                      (if index_iter = [] then Inl (IndexError, c)
                       else delitem c (last index_iter + 1))
                    else setitem c (IntKey (int ix)) d))
      in case r of
           Inl ec \<Rightarrow> Inl ec
         | Inr c1 \<Rightarrow> setitem_slice_loop c1 index_iter (Suc i) rest)"

definition setitem_slice :: "MultiBlock \<Rightarrow> slice \<Rightarrow> block option list \<Rightarrow> result" where
  "setitem_slice c index data =
     (case range_slice (n_blocks c) index of
        Inl e \<Rightarrow> Inl (e, c)
      | Inr index_iter \<Rightarrow> setitem_slice_loop c index_iter 0 (zip_longest index_iter data))"

subsection \<open>Recursive cleanup\<close>

text \<open>
  \<open>clean\<close>. The first loop visits the children in order, cleans every nested container in
  place (with the default \<open>empty=True\<close>, whatever \<open>empty\<close> is here) and collects the positions
  to remove; \<open>clean_scan\<close> is that loop from position \<open>i\<close> on, returning the children as
  the loop leaves them and \<open>null_blocks\<close>. The second loop is \<open>clean_delete\<close>: it removes
  the first collected position and subtracts one from all of them. The positions still to
  come are larger than the one removed, so the subtraction is the one on naturals.
\<close>

fun clean_delete :: "MultiBlock \<Rightarrow> nat list \<Rightarrow> result" where
  "clean_delete c [] = Inr c"
| "clean_delete c (k # ks) =
     (case delitem c k of
        Inl ec \<Rightarrow> Inl ec
      | Inr c1 \<Rightarrow> clean_delete c1 (map (\<lambda>x. x - 1) ks))"

fun clean :: "MultiBlock \<Rightarrow> bool \<Rightarrow> result"
  and clean_scan :: "child list \<Rightarrow> nat \<Rightarrow> bool \<Rightarrow> (error \<times> child list) + (child list \<times> nat list)" where
  "clean (MultiBlock a chs r) empty' =
     (case clean_scan chs 0 empty' of
        Inl (e, chs') \<Rightarrow> Inl (e, MultiBlock a chs' r)
      | Inr (chs', null_blocks) \<Rightarrow> clean_delete (MultiBlock a chs' r) null_blocks)"
| "clean_scan [] i empty' = Inr ([], [])"
| "clean_scan ((Some (Multi m), name) # rest) i empty' =
     (case clean m True of
        Inl (e, m') \<Rightarrow> Inl (e, (Some (Multi m'), name) # rest)
      | Inr m' \<Rightarrow>
          (case clean_scan rest (Suc i) empty' of
             Inl (e, rest') \<Rightarrow> Inl (e, (Some (Multi m'), name) # rest')
           | Inr (rest', null_blocks) \<Rightarrow>
               Inr ((Some (Multi m'), name) # rest',
                    (if n_blocks m' < 1 then [i] else []) @ null_blocks)))"
| "clean_scan ((Some (Leaf d), name) # rest) i empty' =
     (case clean_scan rest (Suc i) empty' of
        Inl (e, rest') \<Rightarrow> Inl (e, (Some (Leaf d), name) # rest')
      | Inr (rest', null_blocks) \<Rightarrow>
          Inr ((Some (Leaf d), name) # rest',
               (if empty' \<and> ds_n_points d < 1 then [i] else []) @ null_blocks))"
| "clean_scan ((None, name) # rest) i empty' =
     (case clean_scan rest (Suc i) empty' of
        Inl (e, rest') \<Rightarrow> Inl (e, (None, name) # rest')
      | Inr (rest', null_blocks) \<Rightarrow> Inr ((None, name) # rest', i # null_blocks))"

subsection \<open>Bounds\<close>





subsection \<open>Active scalars\<close>

text \<open>
  Modelled from the spec: \<open>DataSet.set_active_scalars\<close> (class \<open>DataSet\<close> is in
  \<open>pyvista/core/dataset.py\<close>, which is not part of the sources at hand). The spec gives
  \<open>activate_field(name, axis_preference) -> (association, array)\<close>, failing with NotFound if
  the field is absent, looking in the point and in the cell arrays, the preference
  breaking the tie when the name is in both. Without a name it deactivates and returns
  the none association.
\<close>

definition ds_set_active_scalars ::
  "DataSet \<Rightarrow> string option \<Rightarrow> preference \<Rightarrow> error + (FieldAssociation \<times> ndarray option)" where
  "ds_set_active_scalars d name pref =
     (case name of
        None \<Rightarrow> Inr (NONE, None)
      | Some s \<Rightarrow>
          (case (map_of (point_data d) s, map_of (cell_data d) s) of
             (None, None) \<Rightarrow> Inl KeyError
           | (Some p, None) \<Rightarrow> Inr (POINT, Some p)
           | (None, Some q) \<Rightarrow> Inr (CELL, Some q)
           | (Some p, Some q) \<Rightarrow>
               (if pref = cell then Inr (CELL, Some q) else Inr (POINT, Some p))))"

text \<open>\<open>pyvista_ndarray([])\<close>: one dimension, no element, the default dtype.\<close>

definition empty_ndarray :: ndarray where
  "empty_ndarray = \<lparr>ndim = 1, dtype = float64\<rparr>"

fun parse_field_choice :: "preference \<Rightarrow> FieldAssociation" where
  "parse_field_choice point = POINT"
| "parse_field_choice cell = CELL"

text \<open>\<open>np.issubdtype(dtype, np.complexfloating)\<close>.\<close>

fun complexfloating :: "dtype \<Rightarrow> bool" where
  "complexfloating complex64 = True"
| "complexfloating complex128 = True"
| "complexfloating _ = False"

text \<open>
  The part of \<open>set_active_scalars\<close> after its first loop, on the list \<open>data_assoc\<close> that
  the loop built (the model keeps the field and the array of each entry). The
  consistency loop runs once for every block, over the same entries each time, so the
  two sets it fills are those of one round; it leaves in \<open>scalars\<close> the array of the last
  entry. When \<open>data_assoc\<close> is not empty the container has a block.
\<close>

definition resolve_assoc ::
  "string option \<Rightarrow> preference \<Rightarrow> (FieldAssociation \<times> ndarray) list \<Rightarrow>
   error + (FieldAssociation \<times> ndarray)" where
  "resolve_assoc name pref data_assoc =
     (if name = None then Inr (NONE, empty_ndarray)
      else if data_assoc = [] then Inl KeyError
      else
        (let preference' = parse_field_choice pref;
             field_asc = (if fst (hd data_assoc) \<noteq> preference'
                             \<and> (\<exists>e \<in> set data_assoc. fst e = preference')
                          then preference' else fst (hd data_assoc));
             active = filter (\<lambda>e. fst e = field_asc) data_assoc;
             dims = remdups (map (\<lambda>e. ndim (snd e)) active);
             dtypes = remdups (map (\<lambda>e. dtype (snd e)) active);
             is_complex = map complexfloating dtypes
         in if 1 < length dims then Inl ValueError
            else if (\<exists>x \<in> set is_complex. x) \<and> \<not> (\<forall>x \<in> set is_complex. x) then Inl ValueError
            else Inr (field_asc, snd (last data_assoc))))"

text \<open>
  \<open>set_active_scalars\<close>; \<open>collect_assoc\<close> is its first loop. The activation itself is
  state of the leaf datasets and is not part of the model.
\<close>

fun set_active_scalars ::
    "MultiBlock \<Rightarrow> string option \<Rightarrow> preference \<Rightarrow> bool \<Rightarrow> error + (FieldAssociation \<times> ndarray)"
  and collect_assoc ::
    "child list \<Rightarrow> string option \<Rightarrow> preference \<Rightarrow> bool \<Rightarrow>
     error + (FieldAssociation \<times> ndarray) list" where
  "set_active_scalars (MultiBlock a chs r) name pref allow_missing =
     (case collect_assoc chs name pref allow_missing of
        Inl e \<Rightarrow> Inl e
      | Inr data_assoc \<Rightarrow> resolve_assoc name pref data_assoc)"
| "collect_assoc [] name pref allow_missing = Inr []"
| "collect_assoc ((None, nm) # rest) name pref allow_missing =
     collect_assoc rest name pref allow_missing"
| "collect_assoc ((Some (Multi m), nm) # rest) name pref allow_missing =
     (case set_active_scalars m name pref allow_missing of
        Inl e \<Rightarrow> Inl e
      | Inr (field, scalars) \<Rightarrow>
          (case collect_assoc rest name pref allow_missing of
             Inl e \<Rightarrow> Inl e
           | Inr data_assoc \<Rightarrow>
               Inr ((if field \<noteq> NONE then [(field, scalars)] else []) @ data_assoc)))"
| "collect_assoc ((Some (Leaf d), nm) # rest) name pref allow_missing =
     (case (case ds_set_active_scalars d name pref of
              Inl e \<Rightarrow> (if e = KeyError \<and> allow_missing then Inr (NONE, empty_ndarray) else Inl e)
            | Inr (field, None) \<Rightarrow> Inr (NONE, empty_ndarray)
            | Inr (field, Some scalars_out) \<Rightarrow> Inr (field, scalars_out)) of
        Inl e \<Rightarrow> Inl e
      | Inr (field, scalars) \<Rightarrow>
          (case collect_assoc rest name pref allow_missing of
             Inl e \<Rightarrow> Inl e
           | Inr data_assoc \<Rightarrow>
               Inr ((if field \<noteq> NONE then [(field, scalars)] else []) @ data_assoc)))"

subsection \<open>Auxiliary definitions for the statements\<close>

text \<open>
  What \<open>_refs\<close> holds after the single-slot assignment of \<open>data\<close> at position \<open>i\<close>: the
  entry of the object that was there is removed, the one of the new object is set.
\<close>

definition slot_refs :: "MultiBlock \<Rightarrow> nat \<Rightarrow> block option \<Rightarrow> nat list" where
  "slot_refs c i data =
     (let r1 = (case fst (children c ! i) of
                  None \<Rightarrow> refs c
                | Some b \<Rightarrow> refs_pop (refs c) (address_of b))
      in case data of None \<Rightarrow> r1 | Some b \<Rightarrow> refs_set r1 (address_of b))"

text \<open>
  A dataset for the examples: eight points at address \<open>a\<close>, a box from \<open>lo\<close> to \<open>hi\<close> along
  x and from 0 to 1 along y and z, no arrays.
\<close>

definition box :: "nat \<Rightarrow> real \<Rightarrow> real \<Rightarrow> DataSet" where
  "box a lo hi =
     \<lparr>ds_memory_address = a, ds_n_points = 8,
      ds_bounds = \<lparr>x_min = lo, x_max = hi, y_min = 0, y_max = 1, z_min = 0, z_max = 1\<rparr>,
      point_data = [], cell_data = []\<rparr>"

text \<open>A container of three boxes under their default names.\<close>

definition three :: MultiBlock where
  "three = MultiBlock 0 [(Some (Leaf (box 1 0 1)), Some ''Block-00''),
                         (Some (Leaf (box 2 0 1)), Some ''Block-01''),
                         (Some (Leaf (box 3 0 1)), Some ''Block-02'')] [1, 2, 3]"

text \<open>
  A container is clean when every slot holds a dataset with at least one point or a clean
  nested container with at least one block.
\<close>

fun is_clean :: "MultiBlock \<Rightarrow> bool"
  and all_clean :: "child list \<Rightarrow> bool" where
  "is_clean (MultiBlock a chs r) = all_clean chs"
| "all_clean [] = True"
| "all_clean ((None, name) # rest) = False"
| "all_clean ((Some (Leaf d), name) # rest) = (1 \<le> ds_n_points d \<and> all_clean rest)"
| "all_clean ((Some (Multi m), name) # rest) = (is_clean m \<and> 1 \<le> n_blocks m \<and> all_clean rest)"

text \<open>
  What the first loop of \<open>clean\<close> collects, read off the children as that loop leaves
  them: the slots that hold nothing, a dataset without points (when \<open>empty\<close> is set) or a
  container without blocks; and their positions, counted from \<open>i\<close>.
\<close>

fun removable :: "bool \<Rightarrow> child \<Rightarrow> bool" where
  "removable e (None, name) = True"
| "removable e (Some (Leaf d), name) = (e \<and> ds_n_points d < 1)"
| "removable e (Some (Multi m), name) = (n_blocks m < 1)"

fun removable_positions :: "bool \<Rightarrow> child list \<Rightarrow> nat \<Rightarrow> nat list" where
  "removable_positions e [] i = []"
| "removable_positions e (ch # chs) i =
     (if removable e ch then [i] else []) @ removable_positions e chs (Suc i)"







text \<open>
  A container carries a field when one of its leaf datasets, at any depth, has a point
  or a cell array of that name.
\<close>

fun carries :: "MultiBlock \<Rightarrow> string \<Rightarrow> bool"
  and carries_any :: "child list \<Rightarrow> string \<Rightarrow> bool" where
  "carries (MultiBlock a chs r) s = carries_any chs s"
| "carries_any [] s = False"
| "carries_any ((None, name) # rest) s = carries_any rest s"
| "carries_any ((Some (Leaf d), name) # rest) s =
     (s \<in> fst ` set (point_data d) \<or> s \<in> fst ` set (cell_data d) \<or> carries_any rest s)"
| "carries_any ((Some (Multi m), name) # rest) s = (carries m s \<or> carries_any rest s)"

text \<open>
  Active-field resolution in the words of the specification. A leaf offers the field
  under the point association when it has a point array of the name, under the cell
  association when it has a cell array of the name, under the preferred one of the two
  when it has both, and under none when it has neither. A nested container offers the
  association that resolution gives for it. A block contributes when it is not null and
  what it offers is not the none association. The resolved association is the preference
  when a contributing block offers the preference, and what the first contributing block
  offers otherwise (none when no block contributes).
\<close>

definition leaf_offer :: "DataSet \<Rightarrow> string \<Rightarrow> preference \<Rightarrow> FieldAssociation" where
  "leaf_offer d s pref =
     (if s \<in> fst ` set (point_data d) \<and> s \<in> fst ` set (cell_data d)
        then (case pref of point \<Rightarrow> POINT | cell \<Rightarrow> CELL)
      else if s \<in> fst ` set (point_data d) then POINT
      else if s \<in> fst ` set (cell_data d) then CELL
      else NONE)"

fun spec_association :: "MultiBlock \<Rightarrow> string \<Rightarrow> preference \<Rightarrow> FieldAssociation"
  and spec_offers :: "child list \<Rightarrow> string \<Rightarrow> preference \<Rightarrow> FieldAssociation list" where
  "spec_association (MultiBlock a chs r) s pref =
     (let offers = spec_offers chs s pref;
          preferred = (case pref of point \<Rightarrow> POINT | cell \<Rightarrow> CELL)
      in if offers = [] then NONE
         else if preferred \<in> set offers then preferred
         else hd offers)"
| "spec_offers [] s pref = []"
| "spec_offers ((None, name) # rest) s pref = spec_offers rest s pref"
| "spec_offers ((Some (Leaf d), name) # rest) s pref =
     (if leaf_offer d s pref \<noteq> NONE then [leaf_offer d s pref] else []) @ spec_offers rest s pref"
| "spec_offers ((Some (Multi m), name) # rest) s pref =
     (if spec_association m s pref \<noteq> NONE then [spec_association m s pref] else [])
     @ spec_offers rest s pref"

text \<open>
  A dataset for the examples, with one-dimensional real point arrays of the names \<open>ps\<close>
  and cell arrays of the names \<open>cs\<close>.
\<close>

definition with_arrays :: "nat \<Rightarrow> string list \<Rightarrow> string list \<Rightarrow> DataSet" where
  "with_arrays a ps cs =
     (box a 0 1)\<lparr>point_data := map (\<lambda>s. (s, \<lparr>ndim = 1, dtype = float64\<rparr>)) ps,
                 cell_data := map (\<lambda>s. (s, \<lparr>ndim = 1, dtype = float64\<rparr>)) cs\<rparr>"

section \<open>Properties\<close>

subsection \<open>Basic facts\<close>

lemma range_index_less: "range_index n index = Inr i \<Longrightarrow> i < n"
  by (auto simp: range_index_def split: if_splits)

lemma range_index_int [simp]: "i < n \<Longrightarrow> range_index n (int i) = Inr i"
  by (simp add: range_index_def)

lemma getitem_int [simp]: "i < n_blocks c \<Longrightarrow> getitem c (int i) = Inr (fst (children c ! i))"
  by (simp add: getitem_def GetBlock_def)

lemma n_blocks_set_n_blocks [simp]: "n_blocks (set_n_blocks c n) = n"
  by (simp add: n_blocks_def set_n_blocks_def)

lemma children_grow [simp]:
  "children (set_n_blocks c (Suc (n_blocks c))) = children c @ [(None, None)]"
  by (simp add: n_blocks_def set_n_blocks_def)

lemma set_n_blocks_sel [simp]:
  "memory_address (set_n_blocks c n) = memory_address c" "refs (set_n_blocks c n) = refs c"
  by (simp_all add: set_n_blocks_def)

lemma default_name_0: "default_name 0 = ''Block-00''"
  by (simp add: default_name_def decimal.simps)

lemma default_name_1: "default_name (Suc 0) = ''Block-01''"
  by (simp add: default_name_def decimal.simps)

lemma default_name_2: "default_name 2 = ''Block-02''"
  by (simp add: default_name_def decimal.simps)

lemma address_box [simp]: "ds_memory_address (box a lo hi) = a"
  by (simp add: box_def)

text \<open>Single-slot assignment at a valid position never raises; this is what it leaves.\<close>

lemma setitem_slot_valid:
  assumes "range_index (n_blocks c) index = Inr i"
  shows "setitem_slot c index data name =
         Inr (MultiBlock (memory_address c)
                ((children c)[i := (data, Some (case name of None \<Rightarrow> default_name i | Some s \<Rightarrow> s))])
                (slot_refs c i data))"
proof -
  have i: "i < length (children c)"
    using range_index_less [OF assms] by (simp add: n_blocks_def)
  show ?thesis
    using assms i
    by (cases "fst (children c ! i)"; cases data)
       (simp_all add: setitem_slot_def remove_ref_def GetBlock_def SetBlock_def
          set_block_name_def n_blocks_def slot_refs_def Let_def)
qed

lemma set_block_name_valid:
  assumes "range_index (n_blocks c) index = Inr i"
  shows "set_block_name c index name =
         Inr (MultiBlock (memory_address c)
                ((children c)[i := (fst (children c ! i),
                                    case name of None \<Rightarrow> snd (children c ! i) | Some s \<Rightarrow> Some s)])
                (refs c))"
  using assms by (cases name) (simp_all add: set_block_name_def)

subsection \<open>Index assignment and names\<close>

text \<open>
  Claim C2, as amended. Index assignment without an explicit name, \<open>c[i] = payload\<close> at a
  valid position, stores the payload at the resolved position and sets the name of that
  position to the generated default \<open>Block-%02d\<close> of the position, whatever name the slot
  carried before; the other payloads and names are unchanged.
\<close>

theorem setitem_index_sets_default_name:
  assumes "range_index (n_blocks c) index = Inr i"
  shows "\<exists>c'. setitem c (IntKey index) data = Inr c'
           \<and> map fst (children c') = (map fst (children c))[i := data]
           \<and> keys c' = (keys c)[i := Some (default_name i)]"
  by (simp add: setitem_slot_valid [OF assms] keys_def map_update)

theorem setitem_index_sets_default_name_witness:
  "range_index (n_blocks (MultiBlock 0 [(Some (Leaf (box 1 0 1)), Some ''x'')] [1])) 0 = Inr 0
   \<and> (\<exists>c'. setitem (MultiBlock 0 [(Some (Leaf (box 1 0 1)), Some ''x'')] [1]) (IntKey 0)
              (Some (Leaf (box 2 0 1))) = Inr c'
            \<and> map fst (children c') = [Some (Leaf (box 2 0 1))]
            \<and> keys c' = [Some ''Block-00''])"
proof -
  have r: "range_index (n_blocks (MultiBlock 0 [(Some (Leaf (box 1 0 1)), Some ''x'')] [1])) 0 = Inr 0"
    by (simp add: range_index_def n_blocks_def)
  show ?thesis
    using r setitem_index_sets_default_name [OF r, of "Some (Leaf (box 2 0 1))"]
    by (simp add: keys_def default_name_0)
qed

text \<open>
  The claim as written fails: the slot at position 0 is named \<open>x\<close>, and after
  \<open>c[0] = payload\<close> it is named \<open>Block-00\<close>.
\<close>

theorem setitem_index_name_counterexample:
  "keys (MultiBlock 0 [(Some (Leaf (box 1 0 1)), Some ''x'')] [1]) = [Some ''x'']
   \<and> setitem (MultiBlock 0 [(Some (Leaf (box 1 0 1)), Some ''x'')] [1]) (IntKey 0)
        (Some (Leaf (box 2 0 1)))
      = Inr (MultiBlock 0 [(Some (Leaf (box 2 0 1)), Some ''Block-00'')] [2])"
  by (simp add: keys_def setitem_slot_def range_index_def n_blocks_def GetBlock_def
        remove_ref_def getitem_def refs_pop_def refs_set_def SetBlock_def set_block_name_def
        default_name_0)

text \<open>
  Claim C5, as amended. For a valid index, \<open>replace(index, new_payload)\<close> stores the
  payload at the resolved position and leaves all other payloads unchanged; when the slot
  carried a name, every name is unchanged; when it carried none, the slot receives the
  generated default name of its position and the other names are unchanged.
\<close>

theorem replace_keeps_name:
  assumes "range_index (n_blocks c) index = Inr i"
  shows "\<exists>c'. replace c index data = Inr c'
           \<and> map fst (children c') = (map fst (children c))[i := data]
           \<and> (keys c ! i \<noteq> None \<longrightarrow> keys c' = keys c)
           \<and> (keys c ! i = None \<longrightarrow> keys c' = (keys c)[i := Some (default_name i)])"
proof -
  have i: "i < length (children c)"
    using range_index_less [OF assms] by (simp add: n_blocks_def)
  let ?c1 = "MultiBlock (memory_address c) ((children c)[i := (data, Some (default_name i))])
               (slot_refs c i data)"
  have r1: "range_index (n_blocks ?c1) index = Inr i"
    using assms by (simp add: n_blocks_def)
  have g: "get_block_name c index = Inr (snd (children c ! i))"
    using assms by (simp add: get_block_name_def)
  have rep: "replace c index data =
       Inr (MultiBlock (memory_address c)
              ((children c)[i := (data, case snd (children c ! i) of
                                          None \<Rightarrow> Some (default_name i) | Some s \<Rightarrow> Some s)])
              (slot_refs c i data))"
    using i by (cases "snd (children c ! i)")
      (simp_all add: replace_def g setitem_slot_valid [OF assms] set_block_name_valid [OF r1])
  show ?thesis
    using i unfolding rep
    by (cases "snd (children c ! i)") (auto simp: keys_def map_update list_update_same_conv)
qed

theorem replace_keeps_name_witness:
  "range_index (n_blocks (MultiBlock 0 [(Some (Leaf (box 1 0 1)), Some ''cube''),
                                        (Some (Leaf (box 2 0 1)), Some ''sphere'')] [1, 2])) 1 = Inr 1
   \<and> (\<exists>c'. replace (MultiBlock 0 [(Some (Leaf (box 1 0 1)), Some ''cube''),
                                  (Some (Leaf (box 2 0 1)), Some ''sphere'')] [1, 2]) 1
              (Some (Leaf (box 3 0 1))) = Inr c'
            \<and> map fst (children c') = [Some (Leaf (box 1 0 1)), Some (Leaf (box 3 0 1))]
            \<and> keys c' = [Some ''cube'', Some ''sphere''])"
proof -
  let ?c = "MultiBlock 0 [(Some (Leaf (box 1 0 1)), Some ''cube''),
                          (Some (Leaf (box 2 0 1)), Some ''sphere'')] [1, 2]"
  have r: "range_index (n_blocks ?c) 1 = Inr 1"
    by (simp add: range_index_def n_blocks_def)
  show ?thesis
    using r replace_keeps_name [OF r, of "Some (Leaf (box 3 0 1))"]
    by (simp add: keys_def)
qed

text \<open>
  The claim as written fails for a slot without a name: a container of one block made by
  setting \<open>n_blocks\<close> to 1 has the names \<open>[None]\<close>, and after \<open>replace(0, payload)\<close> the names
  are \<open>['Block-00']\<close>.
\<close>

theorem replace_unnamed_counterexample:
  "keys (set_n_blocks (MultiBlock 0 [] []) 1) = [None]
   \<and> replace (set_n_blocks (MultiBlock 0 [] []) 1) 0 (Some (Leaf (box 1 0 1)))
      = Inr (MultiBlock 0 [(Some (Leaf (box 1 0 1)), Some ''Block-00'')] [1])"
  by (simp add: keys_def set_n_blocks_def replace_def get_block_name_def setitem_slot_def
        range_index_def n_blocks_def GetBlock_def refs_set_def SetBlock_def set_block_name_def
        default_name_0)

subsection \<open>Appending a container to itself\<close>

text \<open>
  Claim C7, as amended. For every container \<open>c\<close>, \<open>c.append(c)\<close> raises \<open>ValueError\<close> (not
  the \<open>TypeError\<close> that \<open>append\<close> raises for a value that is no dataset) and leaves the
  container as it was: no new slot, no retained entry.
\<close>

theorem append_self_raises:
  "append c (Some (Multi c)) name = Inl (ValueError, c)"
  by (simp add: append_def is_self_def)

theorem append_self_raises_witness:
  "append (MultiBlock 0 [(Some (Leaf (box 1 0 1)), Some ''Block-00'')] [1])
     (Some (Multi (MultiBlock 0 [(Some (Leaf (box 1 0 1)), Some ''Block-00'')] [1]))) None
   = Inl (ValueError, MultiBlock 0 [(Some (Leaf (box 1 0 1)), Some ''Block-00'')] [1])"
  using append_self_raises [of "MultiBlock 0 [(Some (Leaf (box 1 0 1)), Some ''Block-00'')] [1]" None]
  by simp

text \<open>The error of \<open>c.append(c)\<close> on the empty container is not the type error.\<close>

theorem append_self_counterexample:
  "append (MultiBlock 0 [] []) (Some (Multi (MultiBlock 0 [] []))) None
   \<noteq> Inl (TypeError, MultiBlock 0 [] [])"
  by (simp add: append_def is_self_def)

subsection \<open>Assignment by name\<close>

lemma append_not_self:
  assumes "\<not> is_self c data"
  shows "append c data name =
         Inr (MultiBlock (memory_address c)
                (children c @ [(data, Some (case name of None \<Rightarrow> default_name (n_blocks c) | Some s \<Rightarrow> s))])
                (case data of None \<Rightarrow> refs c | Some b \<Rightarrow> refs_set (refs c) (address_of b)))"
proof -
  let ?c1 = "set_n_blocks c (n_blocks c + 1)"
  have r: "range_index (n_blocks ?c1) (int (n_blocks c)) = Inr (n_blocks c)"
    by simp
  have sr: "slot_refs ?c1 (n_blocks c) data = (case data of None \<Rightarrow> refs c | Some b \<Rightarrow> refs_set (refs c) (address_of b))"
    by (simp add: slot_refs_def) (simp add: n_blocks_def Let_def)
  have s: "setitem_slot ?c1 (int (n_blocks c)) data None =
      Inr (MultiBlock (memory_address c) (children c @ [(data, Some (default_name (n_blocks c)))])
            (case data of None \<Rightarrow> refs c | Some b \<Rightarrow> refs_set (refs c) (address_of b)))"
    unfolding setitem_slot_valid [OF r] sr by simp (simp add: n_blocks_def)
  show ?thesis
    using assms s
    by (cases name) (simp_all add: append_def Let_def set_block_name_def n_blocks_def)
qed

lemma index_by_name_from_Inl:
  "(index_by_name_from chs i s = Inl e) = (e = KeyError \<and> Some s \<notin> snd ` set chs)"
  by (induction chs arbitrary: i) auto

lemma index_by_name_from_Inr:
  "index_by_name_from chs i s = Inr j \<Longrightarrow>
   i \<le> j \<and> j - i < length chs \<and> snd (chs ! (j - i)) = Some s \<and> (\<forall>k < j - i. snd (chs ! k) \<noteq> Some s)"
proof (induction chs arbitrary: i)
  case Nil
  then show ?case by simp
next
  case (Cons ch chs)
  show ?case
  proof (cases "snd ch = Some s")
    case True
    with Cons.prems show ?thesis by simp
  next
    case False
    with Cons.prems have rec: "index_by_name_from chs (Suc i) s = Inr j" by simp
    from Cons.IH [OF rec] have ih: "Suc i \<le> j" "j - Suc i < length chs"
      "snd (chs ! (j - Suc i)) = Some s" "\<forall>k < j - Suc i. snd (chs ! k) \<noteq> Some s" by auto
    from ih(1) have eq: "j - i = Suc (j - Suc i)" by simp
    show ?thesis
      using ih False unfolding eq by (auto simp: nth_Cons split: nat.splits)
  qed
qed

text \<open>
  Claim C9, as amended. For a string \<open>s\<close> that matches no block name and a payload that
  is not the container itself, \<open>c[s] = payload\<close> does not fail: it appends one block
  holding the payload under the name \<open>s\<close>, the length grows by one, every existing slot and
  name is unchanged and every retained entry stays (the entry of the payload is set).
  When the payload is the container itself, the assignment raises \<open>ValueError\<close> and
  changes nothing. When \<open>s\<close> matches a name, the first slot of that name is overwritten
  in place and keeps the name.
\<close>

theorem setitem_name_appends_or_overwrites:
  "(Some s \<notin> set (keys c) \<and> \<not> is_self c data \<longrightarrow>
      (\<exists>c'. setitem c (StrKey s) data = Inr c'
         \<and> children c' = children c @ [(data, Some s)]
         \<and> n_blocks c' = n_blocks c + 1
         \<and> refs c' = (case data of None \<Rightarrow> refs c | Some b \<Rightarrow> refs_set (refs c) (address_of b))
         \<and> take (length (refs c)) (refs c') = refs c))
   \<and> (Some s \<notin> set (keys c) \<and> is_self c data \<longrightarrow>
      setitem c (StrKey s) data = Inl (ValueError, c))
   \<and> (Some s \<in> set (keys c) \<longrightarrow>
      (\<exists>i c'. i < n_blocks c \<and> keys c ! i = Some s \<and> (\<forall>k < i. keys c ! k \<noteq> Some s)
         \<and> setitem c (StrKey s) data = Inr c'
         \<and> children c' = (children c)[i := (data, Some s)]))"
proof (intro conjI impI)
  assume a: "Some s \<notin> set (keys c) \<and> \<not> is_self c data"
  then have "Some s \<notin> snd ` set (children c)" by (simp add: keys_def)
  then have g: "get_index_by_name c s = Inl KeyError"
    by (simp add: get_index_by_name_def index_by_name_from_Inl)
  have t: "take (length (refs c)) (case data of None \<Rightarrow> refs c | Some b \<Rightarrow> refs_set (refs c) (address_of b)) = refs c"
    by (cases data) (simp_all add: refs_set_def)
  show "\<exists>c'. setitem c (StrKey s) data = Inr c'
         \<and> children c' = children c @ [(data, Some s)]
         \<and> n_blocks c' = n_blocks c + 1
         \<and> refs c' = (case data of None \<Rightarrow> refs c | Some b \<Rightarrow> refs_set (refs c) (address_of b))
         \<and> take (length (refs c)) (refs c') = refs c"
    using a t by (simp add: g append_not_self n_blocks_def)
next
  assume a: "Some s \<notin> set (keys c) \<and> is_self c data"
  then have "Some s \<notin> snd ` set (children c)" by (simp add: keys_def)
  then have g: "get_index_by_name c s = Inl KeyError"
    by (simp add: get_index_by_name_def index_by_name_from_Inl)
  show "setitem c (StrKey s) data = Inl (ValueError, c)"
    using a by (simp add: g append_def)
next
  assume a: "Some s \<in> set (keys c)"
  then have "\<not> Some s \<notin> snd ` set (children c)" by (simp add: keys_def)
  then have "\<forall>e. get_index_by_name c s \<noteq> Inl e"
    by (simp add: get_index_by_name_def index_by_name_from_Inl)
  then obtain i where g: "get_index_by_name c s = Inr i"
    by (cases "get_index_by_name c s") auto
  from index_by_name_from_Inr [OF g [unfolded get_index_by_name_def]]
  have i: "i < length (children c)" "snd (children c ! i) = Some s"
    "\<forall>k < i. snd (children c ! k) \<noteq> Some s" by auto
  have r: "range_index (n_blocks c) (int i) = Inr i" using i by (simp add: n_blocks_def)
  show "\<exists>i c'. i < n_blocks c \<and> keys c ! i = Some s \<and> (\<forall>k < i. keys c ! k \<noteq> Some s)
         \<and> setitem c (StrKey s) data = Inr c'
         \<and> children c' = (children c)[i := (data, Some s)]"
    using i by (intro exI [of _ i]) (simp add: g setitem_slot_valid [OF r] n_blocks_def keys_def)
qed

theorem setitem_name_appends_or_overwrites_witness:
  "Some ''bar'' \<notin> set (keys (MultiBlock 0 [(Some (Leaf (box 1 0 1)), Some ''poly'')] [1]))
   \<and> \<not> is_self (MultiBlock 0 [(Some (Leaf (box 1 0 1)), Some ''poly'')] [1]) (Some (Leaf (box 2 0 1)))
   \<and> (\<exists>c'. setitem (MultiBlock 0 [(Some (Leaf (box 1 0 1)), Some ''poly'')] [1]) (StrKey ''bar'')
              (Some (Leaf (box 2 0 1))) = Inr c'
            \<and> children c' = [(Some (Leaf (box 1 0 1)), Some ''poly''),
                             (Some (Leaf (box 2 0 1)), Some ''bar'')]
            \<and> refs c' = [1, 2])
   \<and> is_self (MultiBlock 0 [(Some (Leaf (box 1 0 1)), Some ''poly'')] [1])
        (Some (Multi (MultiBlock 0 [(Some (Leaf (box 1 0 1)), Some ''poly'')] [1])))
   \<and> setitem (MultiBlock 0 [(Some (Leaf (box 1 0 1)), Some ''poly'')] [1]) (StrKey ''bar'')
        (Some (Multi (MultiBlock 0 [(Some (Leaf (box 1 0 1)), Some ''poly'')] [1])))
      = Inl (ValueError, MultiBlock 0 [(Some (Leaf (box 1 0 1)), Some ''poly'')] [1])
   \<and> Some ''poly'' \<in> set (keys (MultiBlock 0 [(Some (Leaf (box 1 0 1)), Some ''poly'')] [1]))
   \<and> (\<exists>c'. setitem (MultiBlock 0 [(Some (Leaf (box 1 0 1)), Some ''poly'')] [1]) (StrKey ''poly'')
              (Some (Leaf (box 2 0 1))) = Inr c'
            \<and> children c' = [(Some (Leaf (box 2 0 1)), Some ''poly'')])"
proof -
  let ?c = "MultiBlock 0 [(Some (Leaf (box 1 0 1)), Some ''poly'')] [1]"
  let ?d = "Some (Leaf (box 2 0 1))"
  have k: "keys ?c = [Some ''poly'']" by (simp add: keys_def)
  have ns: "\<not> is_self ?c ?d" by (simp add: is_self_def)
  have n: "n_blocks ?c = 1" by (simp add: n_blocks_def)
  have sf: "is_self ?c (Some (Multi ?c))" by (simp add: is_self_def)
  show ?thesis
    using setitem_name_appends_or_overwrites [of "''bar''" ?c ?d]
      setitem_name_appends_or_overwrites [of "''bar''" ?c "Some (Multi ?c)"]
      setitem_name_appends_or_overwrites [of "''poly''" ?c ?d] ns sf
    unfolding k n by (auto simp: refs_set_def)
qed

text \<open>
  The claim as written fails when the payload is the container: \<open>c['a'] = c\<close> reaches
  \<open>append\<close>, which raises \<open>ValueError\<close>.
\<close>

theorem setitem_name_self_counterexample:
  "Some ''a'' \<notin> set (keys (MultiBlock 0 [] []))
   \<and> setitem (MultiBlock 0 [] []) (StrKey ''a'') (Some (Multi (MultiBlock 0 [] [])))
      = Inl (ValueError, MultiBlock 0 [] [])"
  by (simp add: keys_def get_index_by_name_def append_def is_self_def)

subsection \<open>Insertion\<close>

lemma insert_step_ok:
  assumes "Suc i < n_blocks c"
  shows "\<exists>c'. insert_step c i = Inr c' \<and> n_blocks c' = n_blocks c"
proof -
  have i: "i < n_blocks c" using assms by simp
  have r: "range_index (n_blocks c) (int i + 1) = Inr (Suc i)"
    using assms by (simp add: range_index_def)
  obtain c1 where c1: "setitem c (IntKey (int i + 1)) (fst (children c ! i)) = Inr c1"
    and n1: "n_blocks c1 = n_blocks c"
    by (simp add: setitem_slot_valid [OF r] n_blocks_def)
  have r1: "range_index (n_blocks c1) (int i + 1) = Inr (Suc i)" using r n1 by simp
  have g: "get_block_name c1 (int i) = Inr (snd (children c1 ! i))"
    using i n1 by (simp add: get_block_name_def)
  show ?thesis
    using i c1 g n1 by (simp add: insert_step_def set_block_name_valid [OF r1] n_blocks_def)
qed

lemma insert_loop_ok:
  "\<forall>i \<in> set is. Suc i < n_blocks c \<Longrightarrow> \<exists>c'. insert_loop c is = Inr c' \<and> n_blocks c' = n_blocks c"
proof (induction "is" arbitrary: c)
  case Nil
  then show ?case by simp
next
  case (Cons i "is")
  from Cons.prems have "Suc i < n_blocks c" by simp
  from insert_step_ok [OF this] obtain c1 where c1: "insert_step c i = Inr c1" "n_blocks c1 = n_blocks c"
    by blast
  with Cons.prems have "\<forall>i \<in> set is. Suc i < n_blocks c1" by simp
  from Cons.IH [OF this] c1 show ?case by simp
qed

lemma insert_valid:
  assumes "range_index (n_blocks c) index = Inr i"
  shows "\<exists>c'. insert c index dataset name = Inr c' \<and> n_blocks c' = Suc (n_blocks c)"
proof -
  let ?c1 = "set_n_blocks c (n_blocks c + 1)"
  have n1: "n_blocks ?c1 = Suc (n_blocks c)" by simp
  have "\<forall>k \<in> set (rev [i ..< n_blocks ?c1 - 1]). Suc k < n_blocks ?c1"
    by simp
  from insert_loop_ok [OF this] obtain c2 where
    c2: "insert_loop ?c1 (rev [i ..< n_blocks ?c1 - 1]) = Inr c2" "n_blocks c2 = Suc (n_blocks c)"
    using n1 by auto
  have i: "i < n_blocks c2" using range_index_less [OF assms] c2 by simp
  then have r: "range_index (n_blocks c2) (int i) = Inr i" by simp
  obtain c3 where c3: "setitem c2 (IntKey (int i)) dataset = Inr c3" "n_blocks c3 = n_blocks c2"
    by (simp add: setitem_slot_valid [OF r] n_blocks_def)
  have r3: "range_index (n_blocks c3) (int i) = Inr i" using i c3 by simp
  show ?thesis
    using assms c2 c3 by (simp add: insert_def Let_def set_block_name_valid [OF r3] n_blocks_def)
qed

lemma insert_invalid:
  assumes "index < - int (n_blocks c) \<or> int (n_blocks c) \<le> index"
  shows "insert c index dataset name = Inl (IndexError, c)"
  using assms by (simp add: insert_def range_index_def)

text \<open>
  Claim C10. For a container of \<open>n\<close> blocks, \<open>insert(index, payload, name)\<close> accepts
  exactly the indices valid for reading, \<open>-n <= index <= n - 1\<close>, and then leaves \<open>n + 1\<close>
  blocks; for any other index, in particular for \<open>index = n\<close>, it raises \<open>IndexError\<close> and
  leaves the container unchanged.
\<close>

theorem insert_index_range:
  "insert c (int (n_blocks c)) dataset name = Inl (IndexError, c)
   \<and> (index < - int (n_blocks c) \<or> int (n_blocks c) \<le> index \<longrightarrow>
        insert c index dataset name = Inl (IndexError, c))
   \<and> (- int (n_blocks c) \<le> index \<and> index \<le> int (n_blocks c) - 1 \<longrightarrow>
        (\<exists>c'. insert c index dataset name = Inr c' \<and> n_blocks c' = n_blocks c + 1))"
proof (intro conjI impI)
  show "insert c (int (n_blocks c)) dataset name = Inl (IndexError, c)"
    by (simp add: insert_invalid)
next
  assume "index < - int (n_blocks c) \<or> int (n_blocks c) \<le> index"
  then show "insert c index dataset name = Inl (IndexError, c)"
    by (rule insert_invalid)
next
  assume "- int (n_blocks c) \<le> index \<and> index \<le> int (n_blocks c) - 1"
  then have "range_index (n_blocks c) index = Inr (nat (if index < 0 then int (n_blocks c) + index else index))"
    by (simp add: range_index_def)
  from insert_valid [OF this]
  show "\<exists>c'. insert c index dataset name = Inr c' \<and> n_blocks c' = n_blocks c + 1"
    by simp
qed

theorem insert_index_range_witness:
  "insert three 3 (Some (Leaf (box 4 0 1))) None = Inl (IndexError, three)
   \<and> insert three (- 4) (Some (Leaf (box 4 0 1))) None = Inl (IndexError, three)
   \<and> (\<exists>c'. insert three 2 (Some (Leaf (box 4 0 1))) None = Inr c' \<and> n_blocks c' = 4)
   \<and> (\<exists>c'. insert three (- 3) (Some (Leaf (box 4 0 1))) None = Inr c' \<and> n_blocks c' = 4)"
proof -
  have n: "n_blocks three = 3" by (simp add: n_blocks_def three_def)
  show ?thesis
    using insert_index_range [of three "Some (Leaf (box 4 0 1))" None 3]
      insert_index_range [of three "Some (Leaf (box 4 0 1))" None "- 4"]
      insert_index_range [of three "Some (Leaf (box 4 0 1))" None 2]
      insert_index_range [of three "Some (Leaf (box 4 0 1))" None "- 3"]
    unfolding n by simp
qed

subsection \<open>Assignment to the full slice\<close>

lemma range_slice_full_3: "range_slice 3 (Slice None None None) = Inr [0, 1, 2]"
  by (simp add: range_slice_def py_range_def Let_def upt_rec)

text \<open>
  Claim C1. On a container of three blocks, \<open>c[:] = payloads\<close> with five payloads
  should leave those five, and with one payload should leave that one. The code does
  neither: with five payloads it overwrites the three slots and then calls \<open>insert\<close> at
  position 3, which raises \<open>IndexError\<close>; with one payload it overwrites slot 0 and then
  deletes at position 3, past the end, which raises \<open>IndexError\<close> too.
\<close>

theorem setitem_full_slice_raises:
  "setitem_slice three (Slice None None None)
     [Some (Leaf (box 11 0 1)), Some (Leaf (box 12 0 1)), Some (Leaf (box 13 0 1)),
      Some (Leaf (box 14 0 1)), Some (Leaf (box 15 0 1))]
   = Inl (IndexError,
          MultiBlock 0 [(Some (Leaf (box 11 0 1)), Some ''Block-00''),
                        (Some (Leaf (box 12 0 1)), Some ''Block-01''),
                        (Some (Leaf (box 13 0 1)), Some ''Block-02'')] [11, 12, 13])
   \<and> setitem_slice three (Slice None None None) [Some (Leaf (box 11 0 1))]
   = Inl (IndexError,
          MultiBlock 0 [(Some (Leaf (box 11 0 1)), Some ''Block-00''),
                        (Some (Leaf (box 2 0 1)), Some ''Block-01''),
                        (Some (Leaf (box 3 0 1)), Some ''Block-02'')] [2, 3, 11])"
proof -
  have n: "n_blocks three = 3" by (simp add: n_blocks_def three_def)
  have s: "setitem_slice three (Slice None None None) data
           = setitem_slice_loop three [0, 1, 2] 0 (zip_longest [0, 1, 2] data)" for data
    by (simp add: setitem_slice_def n range_slice_full_3)
  show ?thesis
    unfolding s
    by (simp add: three_def n_blocks_def
        setitem_slot_def range_index_def GetBlock_def remove_ref_def getitem_def
        refs_pop_def refs_set_def SetBlock_def set_block_name_def insert_def delitem_def
        default_name_0 default_name_1 default_name_2)
qed

subsection \<open>Cleanup is idempotent\<close>

lemma removable_positions_pred:
  "map (\<lambda>x. x - Suc 0) (removable_positions e chs (Suc i)) = removable_positions e chs i"
  by (induction chs arbitrary: i) auto

lemma delitem_middle:
  "\<exists>r'. delitem (MultiBlock a (pre @ ch # chs) r) (length pre) = Inr (MultiBlock a (pre @ chs) r')"
  by (cases "fst ch")
     (simp_all add: delitem_def remove_ref_def getitem_def GetBlock_def n_blocks_def
        RemoveBlock_def nth_append)

lemma clean_delete_removable:
  "\<exists>r'. clean_delete (MultiBlock a (pre @ chs) r) (removable_positions e chs (length pre))
        = Inr (MultiBlock a (pre @ filter (\<lambda>ch. \<not> removable e ch) chs) r')"
proof (induction chs arbitrary: pre r)
  case Nil
  then show ?case by simp
next
  case (Cons ch chs)
  show ?case
  proof (cases "removable e ch")
    case True
    obtain r1 where d: "delitem (MultiBlock a (pre @ ch # chs) r) (length pre)
        = Inr (MultiBlock a (pre @ chs) r1)"
      using delitem_middle by blast
    from Cons.IH [of pre r1] True d show ?thesis
      by (simp add: removable_positions_pred)
  next
    case False
    from Cons.IH [of "pre @ [ch]" r] False show ?thesis by simp
  qed
qed

lemma clean_total:
  "\<exists>c'. clean c e = Inr c' \<and> (e \<longrightarrow> is_clean c')"
  "\<exists>chs'. clean_scan chs i e = Inr (chs', removable_positions e chs' i)
          \<and> (e \<longrightarrow> all_clean (filter (\<lambda>ch. \<not> removable e ch) chs'))"
proof (induction c e and chs i e rule: clean_clean_scan.induct)
  case (1 a chs r e)
  then obtain chs' where s: "clean_scan chs 0 e = Inr (chs', removable_positions e chs' 0)"
    and cl: "e \<longrightarrow> all_clean (filter (\<lambda>ch. \<not> removable e ch) chs')"
    by blast
  from clean_delete_removable [of a "[]" chs' r e]
  obtain r' where "clean_delete (MultiBlock a chs' r) (removable_positions e chs' 0)
      = Inr (MultiBlock a (filter (\<lambda>ch. \<not> removable e ch) chs') r')"
    by auto
  with s cl show ?case by simp
next
  case (2 i e)
  show ?case by simp
next
  case (3 m name rest i e)
  from "3.IH"(1) obtain m' where m': "clean m True = Inr m'" "is_clean m'" by blast
  from "3.IH"(2) [OF m'(1)] obtain rest' where
    r: "clean_scan rest (Suc i) e = Inr (rest', removable_positions e rest' (Suc i))"
    and cl: "e \<longrightarrow> all_clean (filter (\<lambda>ch. \<not> removable e ch) rest')"
    by blast
  show ?case using m' r cl by auto
next
  case (4 d name rest i e)
  then obtain rest' where
    r: "clean_scan rest (Suc i) e = Inr (rest', removable_positions e rest' (Suc i))"
    and cl: "e \<longrightarrow> all_clean (filter (\<lambda>ch. \<not> removable e ch) rest')"
    by blast
  show ?case using r cl by auto
next
  case (5 name rest i e)
  then obtain rest' where
    r: "clean_scan rest (Suc i) e = Inr (rest', removable_positions e rest' (Suc i))"
    and cl: "e \<longrightarrow> all_clean (filter (\<lambda>ch. \<not> removable e ch) rest')"
    by blast
  show ?case using r cl by auto
qed

lemma clean_fixpoint:
  "is_clean c \<Longrightarrow> clean c e = Inr c"
  "all_clean chs \<Longrightarrow> clean_scan chs i e = Inr (chs, [])"
proof (induction c e and chs i e rule: clean_clean_scan.induct)
  case (1 a chs r e)
  then show ?case by simp
next
  case (2 i e)
  show ?case by simp
next
  case (3 m name rest i e)
  then show ?case by simp
next
  case (4 d name rest i e)
  then show ?case by simp
next
  case (5 name rest i e)
  then show ?case by simp
qed

text \<open>
  Claim C8. Recursive cleanup with \<open>empty\<close> set never raises, and running it a second
  time on its result returns that result unchanged: slots, names and retained entries.
\<close>

theorem clean_idempotent:
  "\<exists>c'. clean c True = Inr c' \<and> clean c' True = Inr c'"
proof -
  from clean_total(1) [of c True] obtain c' where "clean c True = Inr c'" "is_clean c'"
    by blast
  then show ?thesis using clean_fixpoint(1) by blast
qed

theorem clean_idempotent_witness:
  "clean (MultiBlock 0 [(Some (Leaf (box 1 0 1)), Some ''cube''),
                        (None, Some ''Block-01''),
                        (Some (Leaf ((box 4 0 1)\<lparr>ds_n_points := 0\<rparr>)), Some ''empty''),
                        (Some (Multi (MultiBlock 5 [(None, Some ''Block-00'')] [])), Some ''nested'')]
            [1, 4, 5]) True
     = Inr (MultiBlock 0 [(Some (Leaf (box 1 0 1)), Some ''cube'')] [1])
   \<and> clean (MultiBlock 0 [(Some (Leaf (box 1 0 1)), Some ''cube'')] [1]) True
     = Inr (MultiBlock 0 [(Some (Leaf (box 1 0 1)), Some ''cube'')] [1])"
proof -
  let ?messy = "MultiBlock 0 [(Some (Leaf (box 1 0 1)), Some ''cube''),
                        (None, Some ''Block-01''),
                        (Some (Leaf ((box 4 0 1)\<lparr>ds_n_points := 0\<rparr>)), Some ''empty''),
                        (Some (Multi (MultiBlock 5 [(None, Some ''Block-00'')] [])), Some ''nested'')]
            [1, 4, 5]"
  have e: "clean ?messy True = Inr (MultiBlock 0 [(Some (Leaf (box 1 0 1)), Some ''cube'')] [1])"
    by (simp add: delitem_def remove_ref_def getitem_def GetBlock_def n_blocks_def
          RemoveBlock_def refs_pop_def box_def)
  from clean_idempotent [of ?messy] e show ?thesis by simp
qed

subsection \<open>Aggregated bounds\<close>












subsection \<open>Active scalars\<close>

lemma missing_everywhere:
  "\<not> carries c s \<Longrightarrow> set_active_scalars c (Some s) pref allow = Inl KeyError"
  "\<not> carries_any chs s \<Longrightarrow>
     collect_assoc chs (Some s) pref allow = Inl KeyError \<or> collect_assoc chs (Some s) pref allow = Inr []"
proof (induction c s and chs s rule: carries_carries_any.induct)
  case (1 a chs r s)
  then show ?case by (auto simp: resolve_assoc_def)
next
  case (2 s)
  show ?case by simp
next
  case (3 name rest s)
  then show ?case by simp
next
  case (4 d name rest s)
  then have "map_of (point_data d) s = None" "map_of (cell_data d) s = None"
    by (simp_all add: map_of_eq_None_iff)
  with 4 show ?case by (auto simp: ds_set_active_scalars_def)
next
  case (5 m name rest s)
  then show ?case by simp
qed

text \<open>
  Claim C3, as amended. When no block of the container, at any depth, carries a field of
  the requested name, resolving the active scalars raises \<open>KeyError\<close> with
  \<open>allow_missing=False\<close> and raises \<open>KeyError\<close> with \<open>allow_missing=True\<close> as well:
  \<open>allow_missing\<close> lets single blocks lack the field, not all of them.
\<close>

theorem missing_field_raises:
  "\<not> carries c s \<Longrightarrow>
     set_active_scalars c (Some s) pref False = Inl KeyError
     \<and> set_active_scalars c (Some s) pref True = Inl KeyError"
  by (simp add: missing_everywhere(1))

theorem missing_field_raises_witness:
  "\<not> carries (MultiBlock 0 [(Some (Leaf (with_arrays 1 [''T''] [])), None),
                             (Some (Multi (MultiBlock 2 [(Some (Leaf (with_arrays 3 [] [''T''])), None)] [3])), None)]
                 [1, 2]) ''Q''
   \<and> set_active_scalars (MultiBlock 0 [(Some (Leaf (with_arrays 1 [''T''] [])), None),
                             (Some (Multi (MultiBlock 2 [(Some (Leaf (with_arrays 3 [] [''T''])), None)] [3])), None)]
                 [1, 2]) (Some ''Q'') cell False = Inl KeyError
   \<and> set_active_scalars (MultiBlock 0 [(Some (Leaf (with_arrays 1 [''T''] [])), None),
                             (Some (Multi (MultiBlock 2 [(Some (Leaf (with_arrays 3 [] [''T''])), None)] [3])), None)]
                 [1, 2]) (Some ''Q'') cell True = Inl KeyError"
proof -
  let ?c = "MultiBlock 0 [(Some (Leaf (with_arrays 1 [''T''] [])), None),
                             (Some (Multi (MultiBlock 2 [(Some (Leaf (with_arrays 3 [] [''T''])), None)] [3])), None)]
                 [1, 2]"
  have n: "\<not> carries ?c ''Q''" by (simp add: with_arrays_def)
  from n missing_field_raises [OF n, of cell] show ?thesis by simp
qed

text \<open>
  The claim as written fails: one dataset with a point array \<open>T\<close> and no array \<open>Q\<close>;
  resolving \<open>Q\<close> with \<open>allow_missing=True\<close> raises \<open>KeyError\<close> instead of returning the none
  association.
\<close>

theorem allow_missing_counterexample:
  "set_active_scalars (MultiBlock 0 [(Some (Leaf (with_arrays 1 [''T''] [])), None)] [1])
     (Some ''Q'') cell True = Inl KeyError"
  by (simp add: with_arrays_def ds_set_active_scalars_def resolve_assoc_def)

lemma leaf_activation_offer:
  "ds_set_active_scalars d (Some s) pref = Inr (f, arr) \<Longrightarrow>
     f = leaf_offer d s pref \<and> f \<noteq> NONE \<and> arr \<noteq> None"
  "ds_set_active_scalars d (Some s) pref = Inl e \<Longrightarrow> e = KeyError \<and> leaf_offer d s pref = NONE"
proof -
  have p: "(s \<in> fst ` set (point_data d)) = (map_of (point_data d) s \<noteq> None)"
    by (simp add: map_of_eq_None_iff)
  have c: "(s \<in> fst ` set (cell_data d)) = (map_of (cell_data d) s \<noteq> None)"
    by (simp add: map_of_eq_None_iff)
  show "ds_set_active_scalars d (Some s) pref = Inr (f, arr) \<Longrightarrow>
     f = leaf_offer d s pref \<and> f \<noteq> NONE \<and> arr \<noteq> None"
    unfolding leaf_offer_def p c ds_set_active_scalars_def
    by (cases "map_of (point_data d) s"; cases "map_of (cell_data d) s"; cases pref)
       (auto dest: sym)
  show "ds_set_active_scalars d (Some s) pref = Inl e \<Longrightarrow> e = KeyError \<and> leaf_offer d s pref = NONE"
    unfolding leaf_offer_def p c ds_set_active_scalars_def
    by (cases "map_of (point_data d) s"; cases "map_of (cell_data d) s"; cases pref) auto
qed

lemma resolve_assoc_choice:
  assumes "resolve_assoc (Some s) pref da = Inr (f, a)"
  shows "da \<noteq> []
         \<and> f = (if (case pref of point \<Rightarrow> POINT | cell \<Rightarrow> CELL) \<in> set (map fst da)
                then (case pref of point \<Rightarrow> POINT | cell \<Rightarrow> CELL) else hd (map fst da))"
proof -
  have p: "parse_field_choice pref = (case pref of point \<Rightarrow> POINT | cell \<Rightarrow> CELL)"
    by (cases pref) simp_all
  from assms have ne: "da \<noteq> []"
    by (auto simp: resolve_assoc_def split: if_splits)
  from assms ne have f: "f = (if fst (hd da) \<noteq> parse_field_choice pref
                             \<and> (\<exists>e \<in> set da. fst e = parse_field_choice pref)
                          then parse_field_choice pref else fst (hd da))"
    by (simp add: resolve_assoc_def Let_def split: if_splits)
  have mem: "(parse_field_choice pref \<in> set (map fst da))
             = (\<exists>e \<in> set da. fst e = parse_field_choice pref)"
    by force
  have h: "hd (map fst da) = fst (hd da)"
    using ne by (simp add: hd_map)
  show ?thesis
    unfolding p [symmetric] mem h using ne f by auto
qed

text \<open>
  On success the code's first loop has collected exactly what the blocks offer in the
  words of the specification, nested containers included.
\<close>

lemma spec_offers_not_NONE: "NONE \<notin> set (spec_offers chs s pref)"
proof (induction chs)
  case Nil
  show ?case by simp
next
  case (Cons ch chs)
  obtain d name where ch: "ch = (d, name)" by (cases ch)
  show ?case
  proof (cases d)
    case None
    with ch Cons show ?thesis by simp
  next
    case (Some b)
    with ch Cons show ?thesis by (cases b) simp_all
  qed
qed

lemma resolution_refines:
  "name = Some s \<Longrightarrow> set_active_scalars c name pref allow = Inr (f, a) \<Longrightarrow>
     f = spec_association c s pref \<and> f \<noteq> NONE"
  "name = Some s \<Longrightarrow> collect_assoc chs name pref allow = Inr da \<Longrightarrow>
     map fst da = spec_offers chs s pref"
proof (induction c name pref allow and chs name pref allow arbitrary: f a and da
       rule: set_active_scalars_collect_assoc.induct)
  case (1 a' chs r name pref allow)
  from "1.prems" obtain da where da: "collect_assoc chs name pref allow = Inr da"
    and res: "resolve_assoc (Some s) pref da = Inr (f, a)"
    by (auto split: sum.splits)
  from "1.IH" [OF "1.prems"(1) da] have o: "spec_offers chs s pref = map fst da"
    by simp
  from resolve_assoc_choice [OF res] have ne: "da \<noteq> []"
    and f: "f = (if (case pref of point \<Rightarrow> POINT | cell \<Rightarrow> CELL) \<in> set (map fst da)
                then (case pref of point \<Rightarrow> POINT | cell \<Rightarrow> CELL) else hd (map fst da))"
    by blast+
  from ne have ne': "map fst da \<noteq> []" by simp
  then have "hd (map fst da) \<in> set (map fst da)" by (rule hd_in_set)
  with spec_offers_not_NONE [of chs s pref] have hn: "hd (map fst da) \<noteq> NONE"
    unfolding o by metis
  have fn: "f \<noteq> NONE" unfolding f using hn by (cases pref) auto
  have "spec_association (MultiBlock a' chs r) s pref
        = (if (case pref of point \<Rightarrow> POINT | cell \<Rightarrow> CELL) \<in> set (map fst da)
           then (case pref of point \<Rightarrow> POINT | cell \<Rightarrow> CELL) else hd (map fst da))"
    using ne' by (simp add: Let_def o)
  with f have "f = spec_association (MultiBlock a' chs r) s pref" by simp
  with fn show ?case by simp
next
  case (2 name pref allow)
  then show ?case by simp
next
  case (3 nm rest name pref allow)
  then show ?case by simp
next
  case (4 m nm rest name pref allow)
  from "4.prems" obtain f' a' da' where
    m: "set_active_scalars m name pref allow = Inr (f', a')"
    and r: "collect_assoc rest name pref allow = Inr da'"
    and da: "da = (if f' \<noteq> NONE then [(f', a')] else []) @ da'"
    by (auto split: sum.splits)
  from "4.IH"(1) [OF "4.prems"(1) m] have f': "f' = spec_association m s pref" "f' \<noteq> NONE"
    by blast+
  from "4.IH"(2) [OF m refl "4.prems"(1) r]
  have r': "map fst da' = spec_offers rest s pref" .
  show ?case using f' r' da by simp
next
  case (5 d nm rest name pref allow)
  show ?case
  proof (cases "ds_set_active_scalars d (Some s) pref")
    case (Inl e)
    from leaf_activation_offer(2) [OF Inl] have e: "e = KeyError" "leaf_offer d s pref = NONE"
      by blast+
    with "5.prems" Inl have al: allow by (auto split: if_splits sum.splits)
    with "5.prems" Inl e obtain da' where r: "collect_assoc rest name pref allow = Inr da'"
      and da: "da = da'"
      by (auto split: sum.splits)
    have "map fst da' = spec_offers rest s pref"
      using "5.IH" "5.prems"(1) r Inl e al by (auto split: sum.splits)
    with da e show ?thesis by simp
  next
    case (Inr fa)
    obtain f' ao where fa: "fa = (f', ao)" by (cases fa)
    from leaf_activation_offer(1) [OF Inr [unfolded fa]]
    obtain a' where f': "f' = leaf_offer d s pref" "f' \<noteq> NONE" and ao: "ao = Some a'" by auto
    from "5.prems" Inr fa ao f' obtain da' where r: "collect_assoc rest name pref allow = Inr da'"
      and da: "da = (f', a') # da'"
      by (auto split: sum.splits)
    have "map fst da' = spec_offers rest s pref"
      using "5.IH" "5.prems"(1) r Inr fa ao by (auto split: sum.splits)
    with da f' show ?thesis by simp
  qed
qed

text \<open>
  Claim C4. When resolving a field name succeeds, some block contributes, and the
  returned association is the caller's preference if a contributing block offers the
  field under the preference, and otherwise the association offered by the first
  contributing block in traversal order. A nested container is a contributing block
  with the association resolved for it.
\<close>

theorem resolved_association:
  assumes "set_active_scalars c (Some s) pref allow_missing = Inr (field, scalars)"
  shows "spec_offers (children c) s pref \<noteq> []
         \<and> field = (if parse_field_choice pref \<in> set (spec_offers (children c) s pref)
                    then parse_field_choice pref
                    else hd (spec_offers (children c) s pref))"
proof (cases c)
  case (MultiBlock a chs r)
  have p: "parse_field_choice pref = (case pref of point \<Rightarrow> POINT | cell \<Rightarrow> CELL)"
    by (cases pref) simp_all
  from resolution_refines(1) [OF refl assms]
  have f: "field = spec_association c s pref" and fn: "field \<noteq> NONE" by auto
  from f fn have ne: "spec_offers chs s pref \<noteq> []"
    by (auto simp: MultiBlock Let_def split: if_splits)
  with f show ?thesis
    by (simp add: MultiBlock Let_def p)
qed

theorem resolved_association_witness:
  "set_active_scalars
     (MultiBlock 0 [(Some (Leaf (with_arrays 1 [''T''] [])), None),
                    (Some (Multi (MultiBlock 2 [(Some (Leaf (with_arrays 3 [] [''T''])), None)] [3])),
                     None)] [1, 2])
     (Some ''T'') cell False = Inr (CELL, \<lparr>ndim = 1, dtype = float64\<rparr>)
   \<and> spec_offers [(Some (Leaf (with_arrays 1 [''T''] [])), None),
                  (Some (Multi (MultiBlock 2 [(Some (Leaf (with_arrays 3 [] [''T''])), None)] [3])),
                   None)] ''T'' cell = [POINT, CELL]
   \<and> set_active_scalars
       (MultiBlock 0 [(Some (Leaf (with_arrays 2 [] [''T''])), None),
                      (Some (Leaf (with_arrays 1 [''T''] [])), None)] [2, 1])
       (Some ''T'') point False = Inr (POINT, \<lparr>ndim = 1, dtype = float64\<rparr>)
   \<and> set_active_scalars (MultiBlock 0 [(Some (Leaf (with_arrays 1 [''T''] [])), None)] [1])
       (Some ''T'') cell False = Inr (POINT, \<lparr>ndim = 1, dtype = float64\<rparr>)"
proof -
  let ?pc = "MultiBlock 0 [(Some (Leaf (with_arrays 1 [''T''] [])), None),
                    (Some (Multi (MultiBlock 2 [(Some (Leaf (with_arrays 3 [] [''T''])), None)] [3])),
                     None)] [1, 2]"
  have s: "set_active_scalars ?pc (Some ''T'') cell False = Inr (CELL, \<lparr>ndim = 1, dtype = float64\<rparr>)"
    by (simp add: with_arrays_def ds_set_active_scalars_def resolve_assoc_def)
  from resolved_association [OF s] s show ?thesis
    by (simp add: with_arrays_def ds_set_active_scalars_def resolve_assoc_def leaf_offer_def
          Let_def)
qed

end
